theory Spec2Isabelle
  imports Main "HOL-Library.Sublist"
begin

section \<open>The query builder component: data model\<close>

text \<open>
  The component (\<^verbatim>\<open>AzureQueryBuilderComponent\<close>) keeps a tree of groups and clauses and
  edits it in place. Every node is owned by exactly one parent array (nodes are made by
  the factories and pushed once), so an object reference is modelled by the value it
  points to, and a method that mutates its argument returns the updated value.

  JavaScript values that occur in the tree and in the serialized document. A number is
  an \<open>int\<close> here: the component never computes with one.
\<close>

datatype jsval =
    JUndefined
  | JString string
  | JBool bool
  | JNumber int
  | JArray "jsval list"
  | JObject "(string \<times> jsval) list"

text \<open>\<^verbatim>\<open>type FieldType = 'string' | 'number' | 'date' | 'boolean' | 'tags'\<close>, with the
  string literal each member is at run time.\<close>

datatype FieldType = FT_string | FT_number | FT_date | FT_boolean | FT_tags

fun FieldType_literal :: "FieldType \<Rightarrow> string" where
  "FieldType_literal FT_string = ''string''"
| "FieldType_literal FT_number = ''number''"
| "FieldType_literal FT_date = ''date''"
| "FieldType_literal FT_boolean = ''boolean''"
| "FieldType_literal FT_tags = ''tags''"

record Field =
  f_key :: string
  f_label :: string
  f_type :: FieldType
  f_operators :: "string list"

text \<open>\<^verbatim>\<open>logic: 'AND' | 'OR'\<close>.\<close>

datatype logic = AND | OR

fun logic_literal :: "logic \<Rightarrow> string" where
  "logic_literal AND = ''AND''"
| "logic_literal OR = ''OR''"

text \<open>\<^verbatim>\<open>interface Clause { id: string; field?: string; operator?: string; value?: any }\<close>.
  An optional property that is \<^verbatim>\<open>undefined\<close> is \<open>None\<close>; \<^verbatim>\<open>value\<close> is any
  JavaScript value, \<open>JUndefined\<close> when absent.\<close>

record Clause =
  c_id :: string
  c_field :: "string option"
  c_operator :: "string option"
  c_value :: jsval

text \<open>\<^verbatim>\<open>interface Group { id: string; logic: 'AND' | 'OR'; clauses: Array<Clause | Group> }\<close>.
  The union \<^verbatim>\<open>Clause | Group\<close> is the type \<open>item\<close>; its two constructors say which
  interface the object has, which the code itself never inspects (see \<open>isClause\<close>).\<close>

datatype Group = Group (g_id: string) (g_logic: logic) (g_clauses: "item list")
  and item = ClauseItem Clause | GroupItem Group

text \<open>The only run-time failure of the component: reading a property of
  \<^verbatim>\<open>undefined\<close> (\<^verbatim>\<open>group.clauses.map\<close> where \<^verbatim>\<open>group\<close> is a Clause object).\<close>

datatype error = TypeError

section \<open>Helpers\<close>

text \<open>\<^verbatim>\<open>String.prototype.substr(start, length)\<close> for non-negative arguments.\<close>

definition substr :: "nat \<Rightarrow> nat \<Rightarrow> string \<Rightarrow> string" where
  "substr start len s = take len (drop start s)"

text \<open>\<^verbatim>\<open>const uid = (prefix = '') => prefix + Math.random().toString(36).substr(2, 9)\<close>.
  The argument \<open>rnd\<close> is the string \<^verbatim>\<open>Math.random().toString(36)\<close> of this call.\<close>

definition uid :: "string \<Rightarrow> string \<Rightarrow> string" where
  "uid pre rnd = pre @ substr 2 9 rnd"

text \<open>\<^verbatim>\<open>Array.prototype.findIndex\<close>: the index of the first element that satisfies the
  predicate, \<open>-1\<close> when there is none.\<close>

fun findIndex :: "('a \<Rightarrow> bool) \<Rightarrow> 'a list \<Rightarrow> int" where
  "findIndex P [] = -1"
| "findIndex P (x # xs) =
     (if P x then 0
      else (let r = findIndex P xs in if r = -1 then -1 else r + 1))"

text \<open>\<^verbatim>\<open>Array.prototype.splice(start, deleteCount)\<close> with integer arguments and no
  inserted items: a negative \<open>start\<close> counts from the end, and both are clamped to the
  array. The result is the array after the call.\<close>

definition splice :: "int \<Rightarrow> int \<Rightarrow> 'a list \<Rightarrow> 'a list" where
  "splice start deleteCount xs =
     (let len = int (length xs);
          s = (if start < 0 then max (len + start) 0 else min start len);
          d = min (max deleteCount 0) (len - s)
      in take (nat s) xs @ drop (nat (s + d)) xs)"

text \<open>\<^verbatim>\<open>DEFAULT_FIELDS\<close>.\<close>

definition DEFAULT_FIELDS :: "Field list" where
  "DEFAULT_FIELDS =
   [\<lparr>f_key = ''Title'', f_label = ''Title'', f_type = FT_string,
     f_operators = [''contains'', ''equals'', ''not equals'', ''startsWith'']\<rparr>,
    \<lparr>f_key = ''State'', f_label = ''State'', f_type = FT_string,
     f_operators = [''equals'', ''not equals'']\<rparr>,
    \<lparr>f_key = ''AssignedTo'', f_label = ''Assigned To'', f_type = FT_string,
     f_operators = [''equals'', ''not equals'']\<rparr>,
    \<lparr>f_key = ''Priority'', f_label = ''Priority'', f_type = FT_number,
     f_operators = [''='', ''!='', ''<'', ''>'']\<rparr>,
    \<lparr>f_key = ''CreatedDate'', f_label = ''Created Date'', f_type = FT_date,
     f_operators = [''before'', ''after'', ''on'']\<rparr>,
    \<lparr>f_key = ''IsActive'', f_label = ''Is Active'', f_type = FT_boolean,
     f_operators = [''is'', ''is not'']\<rparr>]"

section \<open>The component's methods\<close>

subsection \<open>Factories\<close>

text \<open>\<^verbatim>\<open>newGroup() { return { id: uid('g_'), logic: 'AND', clauses: [] } }\<close> and
  \<^verbatim>\<open>newClause() { return { id: uid('c_'), field: undefined, operator: undefined, value: '' } }\<close>.\<close>

definition newGroup :: "string \<Rightarrow> Group" where
  "newGroup rnd = Group (uid ''g_'' rnd) AND []"

definition newClause :: "string \<Rightarrow> Clause" where
  "newClause rnd =
     \<lparr>c_id = uid ''c_'' rnd, c_field = None, c_operator = None, c_value = JString ''''\<rparr>"

subsection \<open>Classification by id\<close>

text \<open>Both interfaces have an \<^verbatim>\<open>id\<close>.\<close>

fun item_id :: "item \<Rightarrow> string" where
  "item_id (ClauseItem c) = c_id c"
| "item_id (GroupItem g) = g_id g"

text \<open>\<^verbatim>\<open>isClause(item) { return (item as Clause).id?.startsWith('c_') }\<close>. The declared type of
  \<^verbatim>\<open>id\<close> is \<^verbatim>\<open>string\<close>, so the optional chaining never short-circuits.\<close>

definition isClause :: "item \<Rightarrow> bool" where
  "isClause it = prefix ''c_'' (item_id it)"

subsection \<open>Adding and removing children\<close>

text \<open>\<^verbatim>\<open>addClause(group) { group.clauses.push(this.newClause()) }\<close>.\<close>

definition addClause :: "string \<Rightarrow> Group \<Rightarrow> Group" where
  "addClause rnd g = Group (g_id g) (g_logic g) (g_clauses g @ [ClauseItem (newClause rnd)])"

text \<open>\<^verbatim>\<open>removeClause(group, index) { group.clauses.splice(index, 1) }\<close>.\<close>

definition removeClause :: "Group \<Rightarrow> int \<Rightarrow> Group" where
  "removeClause g index = Group (g_id g) (g_logic g) (splice index 1 (g_clauses g))"

text \<open>\<^verbatim>\<open>addGroup(parent) { parent.clauses.push(this.newGroup()) }\<close>.\<close>

definition addGroup :: "string \<Rightarrow> Group \<Rightarrow> Group" where
  "addGroup rnd parent =
     Group (g_id parent) (g_logic parent) (g_clauses parent @ [GroupItem (newGroup rnd)])"

text \<open>
  \<^verbatim>\<open>
  removeGroup(groupToRemove, parentGroup = this.rootGroup) {
    const idx = parentGroup.clauses.findIndex(
      c => !this.isClause(c) && (c as Group).id === groupToRemove.id);
    if (idx !== -1) { parentGroup.clauses.splice(idx, 1); return; }
    for (const item of parentGroup.clauses) {
      if (!this.isClause(item)) this.removeGroup(groupToRemove, item as Group);
    }
  }
  \<close>
  The result is the parent group after the call and the exception that ended it, if
  any. The loop goes on after a removal in a nested group. An item that is not
  classified as a clause but is a Clause object has no \<^verbatim>\<open>clauses\<close> array, and the
  recursive call on it throws in \<^verbatim>\<open>findIndex\<close>; what was removed before stays removed.
\<close>

fun removeGroup :: "Group \<Rightarrow> Group \<Rightarrow> Group \<times> error option"
  and removeGroup_loop :: "Group \<Rightarrow> item list \<Rightarrow> item list \<times> error option" where
  "removeGroup groupToRemove (Group i l cs) =
     (let idx = findIndex (\<lambda>c. \<not> isClause c \<and> item_id c = g_id groupToRemove) cs in
      if idx \<noteq> -1 then (Group i l (splice idx 1 cs), None)
      else (case removeGroup_loop groupToRemove cs of (cs', e) \<Rightarrow> (Group i l cs', e)))"
| "removeGroup_loop groupToRemove [] = ([], None)"
| "removeGroup_loop groupToRemove (x # xs) =
     (if \<not> isClause x then
        (case x of
           ClauseItem c \<Rightarrow> (x # xs, Some TypeError)
         | GroupItem g \<Rightarrow>
             (case removeGroup groupToRemove g of
                (g', Some e) \<Rightarrow> (GroupItem g' # xs, Some e)
              | (g', None) \<Rightarrow>
                  (case removeGroup_loop groupToRemove xs of
                     (xs', e) \<Rightarrow> (GroupItem g' # xs', e))))
      else (case removeGroup_loop groupToRemove xs of (xs', e) \<Rightarrow> (x # xs', e)))"

subsection \<open>Editing a clause\<close>

text \<open>\<^verbatim>\<open>onFieldChange(clause) { clause.operator = undefined; clause.value = '' }\<close>.\<close>

definition onFieldChange :: "Clause \<Rightarrow> Clause" where
  "onFieldChange clause = clause\<lparr>c_operator := None, c_value := JString ''''\<rparr>"

text \<open>The template's field selector,
  \<^verbatim>\<open><select [(ngModel)]="(item as Clause).field" (ngModelChange)="onFieldChange(item as Clause)">\<close>:
  choosing an option writes it to \<^verbatim>\<open>field\<close> through the two-way binding and calls
  \<^verbatim>\<open>onFieldChange\<close>. The option is a field key or \<^verbatim>\<open>undefined\<close>
  (\<^verbatim>\<open>-- select field --\<close>).\<close>

definition ngModel_field :: "Clause \<Rightarrow> string option \<Rightarrow> Clause" where
  "ngModel_field clause newFieldKey = clause\<lparr>c_field := newFieldKey\<rparr>"

definition setClauseField :: "Clause \<Rightarrow> string option \<Rightarrow> Clause" where
  "setClauseField clause newFieldKey = onFieldChange (ngModel_field clause newFieldKey)"

subsection \<open>Field catalog lookups\<close>

text \<open>\<^verbatim>\<open>this.fields.find(x => x.key === clause.field)\<close>: a key is a string, so it is never
  strictly equal to \<^verbatim>\<open>undefined\<close>. The list \<open>fs\<close> is \<^verbatim>\<open>this.fields\<close>.\<close>

definition lookupField :: "Field list \<Rightarrow> Clause \<Rightarrow> Field option" where
  "lookupField fs clause = find (\<lambda>x. Some (f_key x) = c_field clause) fs"

text \<open>\<^verbatim>\<open>operatorsForClause(clause) { const f = ...; return f ? f.operators : [] }\<close>.\<close>

definition operatorsForClause :: "Field list \<Rightarrow> Clause \<Rightarrow> string list" where
  "operatorsForClause fs clause =
     (case lookupField fs clause of Some f \<Rightarrow> f_operators f | None \<Rightarrow> [])"

text \<open>\<^verbatim>\<open>valueInputType(clause): FieldType | 'string' { ...; return f ? f.type : 'string' }\<close>.\<close>

definition valueInputType :: "Field list \<Rightarrow> Clause \<Rightarrow> FieldType" where
  "valueInputType fs clause =
     (case lookupField fs clause of Some f \<Rightarrow> f_type f | None \<Rightarrow> FT_string)"

subsection \<open>Serialization\<close>

text \<open>The two object literals of \<^verbatim>\<open>serializeGroup\<close>, with their properties in the
  order the source writes them.\<close>

definition clausePart :: "string option \<Rightarrow> string option \<Rightarrow> jsval \<Rightarrow> jsval" where
  "clausePart fld op v =
     JObject [(''type'', JString ''clause''),
              (''field'', (case fld of None \<Rightarrow> JUndefined | Some k \<Rightarrow> JString k)),
              (''operator'', (case op of None \<Rightarrow> JUndefined | Some k \<Rightarrow> JString k)),
              (''value'', v)]"

definition groupPart :: "logic \<Rightarrow> jsval \<Rightarrow> jsval" where
  "groupPart l doc =
     JObject [(''type'', JString ''group''), (''logic'', JString (logic_literal l)),
              (''group'', doc)]"

definition queryDocument :: "logic \<Rightarrow> jsval list \<Rightarrow> jsval" where
  "queryDocument l parts =
     JObject [(''logic'', JString (logic_literal l)), (''parts'', JArray parts)]"

text \<open>
  \<^verbatim>\<open>
  serializeGroup(group) {
    const parts = group.clauses.map(item => {
      if (this.isClause(item)) {
        const c = item as Clause;
        return { type: 'clause', field: c.field, operator: c.operator, value: c.value };
      } else {
        return { type: 'group', logic: (item as Group).logic,
                 group: this.serializeGroup(item as Group) };
      }
    });
    return { logic: group.logic, parts };
  }
  \<close>
  \<open>serializeItem\<close> is the callback of \<^verbatim>\<open>map\<close> and \<open>serializeParts\<close> the \<^verbatim>\<open>map\<close> itself,
  left to right, ended by the first exception. A Group object classified as a clause
  has none of \<^verbatim>\<open>field\<close>, \<^verbatim>\<open>operator\<close>, \<^verbatim>\<open>value\<close>: all three read as
  \<^verbatim>\<open>undefined\<close>. A Clause object classified as a group has no \<^verbatim>\<open>clauses\<close>: the
  recursive call throws at \<^verbatim>\<open>group.clauses.map\<close>.
\<close>

fun serializeGroup :: "Group \<Rightarrow> error + jsval"
  and serializeParts :: "item list \<Rightarrow> error + jsval list"
  and serializeItem :: "item \<Rightarrow> error + jsval" where
  "serializeGroup (Group i l cs) =
     (case serializeParts cs of
        Inl e \<Rightarrow> Inl e
      | Inr parts \<Rightarrow> Inr (queryDocument l parts))"
| "serializeParts [] = Inr []"
| "serializeParts (x # xs) =
     (case serializeItem x of
        Inl e \<Rightarrow> Inl e
      | Inr p \<Rightarrow> (case serializeParts xs of Inl e \<Rightarrow> Inl e | Inr ps \<Rightarrow> Inr (p # ps)))"
| "serializeItem (ClauseItem c) =
     (if isClause (ClauseItem c) then Inr (clausePart (c_field c) (c_operator c) (c_value c))
      else Inl TypeError)"
| "serializeItem (GroupItem g) =
     (if isClause (GroupItem g) then Inr (clausePart None None JUndefined)
      else (case serializeGroup g of
              Inl e \<Rightarrow> Inl e
            | Inr doc \<Rightarrow> Inr (groupPart (g_logic g) doc)))"

subsection \<open>The component's state\<close>

text \<open>\<^verbatim>\<open>fields: Field[] = DEFAULT_FIELDS; rootGroup: Group = this.newGroup();\<close>\<close>

record component =
  qb_fields :: "Field list"
  qb_rootGroup :: Group

text \<open>The property initializers and \<^verbatim>\<open>constructor() { this.addClause(this.rootGroup) }\<close>;
  \<open>rnd1\<close> and \<open>rnd2\<close> are the two random strings drawn, in this order.\<close>

definition constructor :: "string \<Rightarrow> string \<Rightarrow> component" where
  "constructor rnd1 rnd2 =
     (let this = \<lparr>qb_fields = DEFAULT_FIELDS, qb_rootGroup = newGroup rnd1\<rparr>
      in this\<lparr>qb_rootGroup := addClause rnd2 (qb_rootGroup this)\<rparr>)"

text \<open>\<^verbatim>\<open>clear() { this.rootGroup = this.newGroup(); this.addClause(this.rootGroup) }\<close>.\<close>

definition clear :: "string \<Rightarrow> string \<Rightarrow> component \<Rightarrow> component" where
  "clear rnd1 rnd2 this =
     (let this1 = this\<lparr>qb_rootGroup := newGroup rnd1\<rparr>
      in this1\<lparr>qb_rootGroup := addClause rnd2 (qb_rootGroup this1)\<rparr>)"

text \<open>The template's \<^verbatim>\<open>(click)="removeGroup(group)"\<close>: the second parameter takes its
  default, \<^verbatim>\<open>this.rootGroup\<close>.\<close>

definition removeGroup_default :: "component \<Rightarrow> Group \<Rightarrow> component \<times> error option" where
  "removeGroup_default this groupToRemove =
     (case removeGroup groupToRemove (qb_rootGroup this) of
        (g, e) \<Rightarrow> (this\<lparr>qb_rootGroup := g\<rparr>, e))"

section \<open>The specification's invariants and reference operations\<close>

text \<open>
  The specification's data model (its section 3) asks that every node has a unique id and
  that clause ids and group ids are told apart by a stable tag. \<open>allIds\<close> lists the ids
  of a tree, the root's first and then depth-first in children order.
\<close>

fun allIds :: "Group \<Rightarrow> string list"
  and allIds_list :: "item list \<Rightarrow> string list" where
  "allIds (Group i l cs) = i # allIds_list cs"
| "allIds_list [] = []"
| "allIds_list (ClauseItem c # xs) = c_id c # allIds_list xs"
| "allIds_list (GroupItem g # xs) = allIds g @ allIds_list xs"

text \<open>A tree is well tagged when \<open>isClause\<close> is right about every child at every level:
  true of the Clause objects and false of the Group objects.\<close>

fun well_tagged :: "Group \<Rightarrow> bool"
  and well_tagged_list :: "item list \<Rightarrow> bool" where
  "well_tagged (Group i l cs) = well_tagged_list cs"
| "well_tagged_list [] = True"
| "well_tagged_list (ClauseItem c # xs) = (isClause (ClauseItem c) \<and> well_tagged_list xs)"
| "well_tagged_list (GroupItem g # xs) =
     (\<not> isClause (GroupItem g) \<and> well_tagged g \<and> well_tagged_list xs)"

text \<open>A well-formed tree: all ids distinct, and well tagged.\<close>

definition well_formed :: "Group \<Rightarrow> bool" where
  "well_formed g = (distinct (allIds g) \<and> well_tagged g)"

text \<open>
  The specification's \<^verbatim>\<open>removeGroup(targetGroup, searchRoot)\<close>, in its words: search the
  subtree for a child Group with the target's id and remove the first match found,
  depth-first, visiting the direct children of a group before descending into its nested
  groups; at most one match is removed. \<open>None\<close> means that no match was found.
  \<open>spec_direct\<close> removes the first direct child Group with the id; \<open>spec_descend\<close> tries
  the nested groups in order and stops at the first one in which a removal happened.
\<close>

fun spec_direct :: "string \<Rightarrow> item list \<Rightarrow> item list option" where
  "spec_direct tid [] = None"
| "spec_direct tid (ClauseItem c # xs) = map_option ((#) (ClauseItem c)) (spec_direct tid xs)"
| "spec_direct tid (GroupItem g # xs) =
     (if g_id g = tid then Some xs else map_option ((#) (GroupItem g)) (spec_direct tid xs))"

fun spec_removeGroup :: "string \<Rightarrow> Group \<Rightarrow> Group option"
  and spec_descend :: "string \<Rightarrow> item list \<Rightarrow> item list option" where
  "spec_removeGroup tid (Group i l cs) =
     (case spec_direct tid cs of
        Some cs' \<Rightarrow> Some (Group i l cs')
      | None \<Rightarrow> map_option (Group i l) (spec_descend tid cs))"
| "spec_descend tid [] = None"
| "spec_descend tid (ClauseItem c # xs) = map_option ((#) (ClauseItem c)) (spec_descend tid xs)"
| "spec_descend tid (GroupItem g # xs) =
     (case spec_removeGroup tid g of
        Some g' \<Rightarrow> Some (GroupItem g' # xs)
      | None \<Rightarrow> map_option ((#) (GroupItem g)) (spec_descend tid xs))"

text \<open>All the trees that differ from a tree by one deletion: one child Group with the
  given id (and what it owns) is taken out of one children list, and every other node
  stays where it is.\<close>

fun deletions :: "string \<Rightarrow> Group \<Rightarrow> Group list"
  and deletions_list :: "string \<Rightarrow> item list \<Rightarrow> item list list" where
  "deletions tid (Group i l cs) = map (Group i l) (deletions_list tid cs)"
| "deletions_list tid [] = []"
| "deletions_list tid (ClauseItem c # xs) = map ((#) (ClauseItem c)) (deletions_list tid xs)"
| "deletions_list tid (GroupItem g # xs) =
     (if g_id g = tid then [xs] else []) @
     map (\<lambda>g'. GroupItem g' # xs) (deletions tid g) @
     map ((#) (GroupItem g)) (deletions_list tid xs)"

section \<open>Serialization over an object store\<close>

text \<open>
  Whether \<^verbatim>\<open>serializeGroup\<close> mutates what it is given cannot be said of a function from
  values to values. Here the objects live in a store, a group holds references to its
  children, and the method is written in state-passing style: it takes the store and
  returns the store it leaves behind.
\<close>

type_synonym ref = nat

datatype obj = ClauseObj Clause | GroupObj string logic "ref list"

type_synonym heap = "ref \<Rightarrow> obj option"

fun obj_id :: "obj \<Rightarrow> string" where
  "obj_id (ClauseObj c) = c_id c"
| "obj_id (GroupObj i l rs) = i"

text \<open>
  \<^verbatim>\<open>serializeGroup\<close> again, statement by statement as above, on references. The store
  may hold a cycle, on which the JavaScript recursion does not return: the first
  argument bounds the depth of the recursion, and \<open>None\<close> is "no result within this
  depth" (or a reference to no object, which JavaScript does not have).
\<close>

fun h_serializeGroup :: "nat \<Rightarrow> ref \<Rightarrow> heap \<Rightarrow> ((error + jsval) \<times> heap) option"
  and h_serializeParts :: "nat \<Rightarrow> ref list \<Rightarrow> heap \<Rightarrow> ((error + jsval list) \<times> heap) option"
  and h_serializeItem :: "nat \<Rightarrow> ref \<Rightarrow> heap \<Rightarrow> ((error + jsval) \<times> heap) option" where
  "h_serializeGroup 0 grp h = None"
| "h_serializeGroup (Suc n) grp h =
     (case h grp of
        None \<Rightarrow> None
      | Some (ClauseObj c) \<Rightarrow> Some (Inl TypeError, h)
      | Some (GroupObj i l rs) \<Rightarrow>
          (case h_serializeParts n rs h of
             None \<Rightarrow> None
           | Some (Inl e, h') \<Rightarrow> Some (Inl e, h')
           | Some (Inr parts, h') \<Rightarrow> Some (Inr (queryDocument l parts), h')))"
| "h_serializeParts n [] h = Some (Inr [], h)"
| "h_serializeParts n (r # rs) h =
     (case h_serializeItem n r h of
        None \<Rightarrow> None
      | Some (Inl e, h1) \<Rightarrow> Some (Inl e, h1)
      | Some (Inr p, h1) \<Rightarrow>
          (case h_serializeParts n rs h1 of
             None \<Rightarrow> None
           | Some (Inl e, h2) \<Rightarrow> Some (Inl e, h2)
           | Some (Inr ps, h2) \<Rightarrow> Some (Inr (p # ps), h2)))"
| "h_serializeItem n item h =
     (case h item of
        None \<Rightarrow> None
      | Some ob \<Rightarrow>
          if prefix ''c_'' (obj_id ob) then
            (case ob of
               ClauseObj c \<Rightarrow> Some (Inr (clausePart (c_field c) (c_operator c) (c_value c)), h)
             | GroupObj i l rs \<Rightarrow> Some (Inr (clausePart None None JUndefined), h))
          else
            (case ob of
               ClauseObj c \<Rightarrow> Some (Inl TypeError, h)
             | GroupObj i l rs \<Rightarrow>
                 (case h_serializeGroup n item h of
                    None \<Rightarrow> None
                  | Some (Inl e, h') \<Rightarrow> Some (Inl e, h')
                  | Some (Inr doc, h') \<Rightarrow> Some (Inr (groupPart l doc), h'))))"

text \<open>The store holds the tree \<open>g\<close> at the reference \<open>r\<close>.\<close>

fun repr :: "heap \<Rightarrow> ref \<Rightarrow> Group \<Rightarrow> bool"
  and repr_list :: "heap \<Rightarrow> ref list \<Rightarrow> item list \<Rightarrow> bool" where
  "repr h r (Group i l cs) =
     (case h r of
        Some (GroupObj i' l' rs) \<Rightarrow> i' = i \<and> l' = l \<and> repr_list h rs cs
      | _ \<Rightarrow> False)"
| "repr_list h rs [] = (rs = [])"
| "repr_list h rs (ClauseItem c # xs) =
     (case rs of [] \<Rightarrow> False | r # rs' \<Rightarrow> h r = Some (ClauseObj c) \<and> repr_list h rs' xs)"
| "repr_list h rs (GroupItem g # xs) =
     (case rs of [] \<Rightarrow> False | r # rs' \<Rightarrow> repr h r g \<and> repr_list h rs' xs)"

text \<open>The number of nested levels of groups of a tree.\<close>

fun height :: "Group \<Rightarrow> nat"
  and height_list :: "item list \<Rightarrow> nat" where
  "height (Group i l cs) = Suc (height_list cs)"
| "height_list [] = 0"
| "height_list (ClauseItem c # xs) = height_list xs"
| "height_list (GroupItem g # xs) = max (height g) (height_list xs)"

section \<open>A sample tree\<close>

definition sampleTree :: Group where
  "sampleTree =
     Group ''g_root'' AND
       [ClauseItem \<lparr>c_id = ''c_1'', c_field = Some ''Title'', c_operator = Some ''contains'',
                    c_value = JString ''bug''\<rparr>,
        GroupItem (Group ''g_a'' OR
          [GroupItem (Group ''g_b'' AND []),
           ClauseItem \<lparr>c_id = ''c_2'', c_field = None, c_operator = None,
                        c_value = JString ''''\<rparr>]),
        GroupItem (Group ''g_c'' AND [])]"

text \<open>The same tree in a store, the root at reference 0.\<close>

definition sampleHeap :: heap where
  "sampleHeap =
     Map.empty
       (0 \<mapsto> GroupObj ''g_root'' AND [1, 2, 5],
        1 \<mapsto> ClauseObj \<lparr>c_id = ''c_1'', c_field = Some ''Title'',
                          c_operator = Some ''contains'', c_value = JString ''bug''\<rparr>,
        2 \<mapsto> GroupObj ''g_a'' OR [3, 4],
        3 \<mapsto> GroupObj ''g_b'' AND [],
        4 \<mapsto> ClauseObj \<lparr>c_id = ''c_2'', c_field = None, c_operator = None,
                          c_value = JString ''''\<rparr>,
        5 \<mapsto> GroupObj ''g_c'' AND [])"

section \<open>Properties\<close>

subsection \<open>Helper lemmas: arrays\<close>

lemma splice_last: "splice (int (length xs)) 1 (xs @ [x]) = xs"
  by (simp add: splice_def Let_def)

lemma find_None_keys:
  "\<forall>f\<in>set fs. Some (f_key f) \<noteq> k \<Longrightarrow> find (\<lambda>x. Some (f_key x) = k) fs = None"
  by (induction fs) auto

lemma find_distinct_keys:
  "distinct (map f_key fs) \<Longrightarrow> f \<in> set fs \<Longrightarrow>
   find (\<lambda>x. Some (f_key x) = Some (f_key f)) fs = Some f"
  by (induction fs) (auto simp: rev_image_eqI)

lemma distinct_count_le_1: "distinct xs \<Longrightarrow> count_list xs x \<le> 1"
  by (induction xs) auto

subsection \<open>Helper lemmas: removing a group\<close>

lemma findIndex_ge: "- 1 \<le> findIndex P xs"
  by (induction xs) (auto simp: Let_def)

lemma findIndex_none: "(\<forall>x\<in>set xs. \<not> P x) \<Longrightarrow> findIndex P xs = - 1"
  by (induction xs) auto

lemma findIndex_lt: "findIndex P xs < int (length xs)"
  by (induction xs) (auto simp: Let_def)

lemma splice_Cons_0: "splice 0 1 (x # xs) = xs"
  by (simp add: splice_def Let_def)

lemma splice_Cons_Suc:
  "0 \<le> r \<Longrightarrow> r < int (length xs) \<Longrightarrow> splice (r + 1) 1 (x # xs) = x # splice r 1 xs"
  by (simp add: splice_def Let_def nat_add_distrib)

lemma item_id_in_allIds: "x \<in> set xs \<Longrightarrow> item_id x \<in> set (allIds_list xs)"
proof (induction xs)
  case Nil
  then show ?case by simp
next
  case (Cons y ys)
  show ?case
  proof (cases y)
    case (ClauseItem c)
    with Cons show ?thesis by auto
  next
    case (GroupItem g)
    with Cons show ?thesis by (cases g) auto
  qed
qed

lemma removeGroup_no_match:
  "well_tagged g \<Longrightarrow> g_id t \<notin> set (allIds_list (g_clauses g)) \<Longrightarrow> removeGroup t g = (g, None)"
  "well_tagged_list xs \<Longrightarrow> g_id t \<notin> set (allIds_list xs) \<Longrightarrow> removeGroup_loop t xs = (xs, None)"
proof (induction t g and t xs rule: removeGroup_removeGroup_loop.induct)
  case (1 t i l cs)
  have "\<forall>x\<in>set cs. \<not> (\<not> isClause x \<and> item_id x = g_id t)"
    using "1.prems"(2) item_id_in_allIds by fastforce
  then have idx: "findIndex (\<lambda>c. \<not> isClause c \<and> item_id c = g_id t) cs = - 1"
    by (rule findIndex_none)
  with 1 show ?case by simp
next
  case (2 t)
  show ?case by simp
next
  case (3 t x xs)
  show ?case
  proof (cases x)
    case (ClauseItem c)
    with 3 show ?thesis by simp
  next
    case (GroupItem g)
    with "3.prems" have a: "\<not> isClause x" "well_tagged g" "well_tagged_list xs"
      "g_id t \<notin> set (allIds_list xs)" "g_id t \<notin> set (allIds g)"
      by auto
    from a(5) have b: "g_id t \<notin> set (allIds_list (g_clauses g))" by (cases g) auto
    have c: "removeGroup t g = (g, None)"
      using "3.IH"(1) [OF a(1) GroupItem a(2) b] .
    have d: "removeGroup_loop t xs = (xs, None)"
      using "3.IH"(2) [OF a(1) GroupItem c [symmetric] _ a(3) a(4)] by simp
    show ?thesis using a(1) GroupItem c d by simp
  qed
qed


lemma spec_direct_in_ids: "spec_direct tid xs = Some r \<Longrightarrow> tid \<in> set (allIds_list xs)"
proof (induction tid xs arbitrary: r rule: spec_direct.induct)
  case (1 tid)
  then show ?case by simp
next
  case (2 tid c xs)
  then show ?case by auto
next
  case (3 tid g xs)
  then show ?case by (cases g) (auto split: if_splits)
qed

lemma spec_removeGroup_in_ids:
  "spec_removeGroup tid g = Some r \<Longrightarrow> tid \<in> set (allIds_list (g_clauses g))"
  "spec_descend tid xs = Some r' \<Longrightarrow> tid \<in> set (allIds_list xs)"
proof (induction tid g and tid xs arbitrary: r and r' rule: spec_removeGroup_spec_descend.induct)
  case (1 tid i l cs)
  then show ?case by (auto split: option.splits dest: spec_direct_in_ids)
next
  case (2 tid)
  then show ?case by simp
next
  case (3 tid c xs)
  then show ?case by auto
next
  case (4 tid g xs)
  then show ?case by (cases g) (auto split: option.splits)
qed

lemma findIndex_spec_direct:
  "well_tagged_list cs \<Longrightarrow>
   (case spec_direct tid cs of
      None \<Rightarrow> findIndex (\<lambda>c. \<not> isClause c \<and> item_id c = tid) cs = - 1
    | Some r \<Rightarrow> findIndex (\<lambda>c. \<not> isClause c \<and> item_id c = tid) cs \<noteq> - 1 \<and>
        splice (findIndex (\<lambda>c. \<not> isClause c \<and> item_id c = tid) cs) 1 cs = r)"
proof (induction tid cs rule: spec_direct.induct)
  case (1 tid)
  then show ?case by simp
next
  case (2 tid c xs)
  let ?P = "\<lambda>c. \<not> isClause c \<and> item_id c = tid"
  from 2 have ih: "case spec_direct tid xs of
      None \<Rightarrow> findIndex ?P xs = - 1
    | Some r \<Rightarrow> findIndex ?P xs \<noteq> - 1 \<and> splice (findIndex ?P xs) 1 xs = r"
    and ic: "isClause (ClauseItem c)" by auto
  show ?case
  proof (cases "spec_direct tid xs")
    case None
    with ih ic show ?thesis by simp
  next
    case (Some r)
    with ih have n: "findIndex ?P xs \<noteq> - 1" and s: "splice (findIndex ?P xs) 1 xs = r"
      by auto
    from n findIndex_ge [of ?P xs] have ge: "0 \<le> findIndex ?P xs" by linarith
    have lt: "findIndex ?P xs < int (length xs)" by (rule findIndex_lt)
    show ?thesis
      using Some ic n s ge splice_Cons_Suc [OF ge lt, of "ClauseItem c"]
      by (simp add: Let_def)
  qed
next
  case (3 tid g xs)
  let ?P = "\<lambda>c. \<not> isClause c \<and> item_id c = tid"
  from 3 have ng: "\<not> isClause (GroupItem g)" and wt: "well_tagged_list xs" by auto
  show ?case
  proof (cases "g_id g = tid")
    case True
    with ng show ?thesis by (simp add: splice_Cons_0)
  next
    case False
    with 3 wt have ih: "case spec_direct tid xs of
      None \<Rightarrow> findIndex ?P xs = - 1
    | Some r \<Rightarrow> findIndex ?P xs \<noteq> - 1 \<and> splice (findIndex ?P xs) 1 xs = r"
      by auto
    show ?thesis
    proof (cases "spec_direct tid xs")
      case None
      with ih False show ?thesis by simp
    next
      case (Some r)
      with ih have n: "findIndex ?P xs \<noteq> - 1" and s: "splice (findIndex ?P xs) 1 xs = r"
        by auto
      from n findIndex_ge [of ?P xs] have ge: "0 \<le> findIndex ?P xs" by linarith
      have lt: "findIndex ?P xs < int (length xs)" by (rule findIndex_lt)
      show ?thesis
        using Some False n s ge splice_Cons_Suc [OF ge lt, of "GroupItem g"]
        by (simp add: Let_def)
    qed
  qed
qed

text \<open>On a well-formed tree the method does what the specification's operation does:
  after a removal in one nested group the loop finds nothing more in the others,
  because the id occurs once.\<close>

lemma removeGroup_refines:
  "well_tagged g \<Longrightarrow> distinct (allIds g) \<Longrightarrow>
     removeGroup t g = (case spec_removeGroup (g_id t) g of None \<Rightarrow> g | Some r \<Rightarrow> r, None)"
  "well_tagged_list xs \<Longrightarrow> distinct (allIds_list xs) \<Longrightarrow>
     spec_direct (g_id t) xs = None \<Longrightarrow>
     removeGroup_loop t xs = (case spec_descend (g_id t) xs of None \<Rightarrow> xs | Some r \<Rightarrow> r, None)"
proof (induction t g and t xs rule: removeGroup_removeGroup_loop.induct)
  case (1 t i l cs)
  let ?P = "\<lambda>c. \<not> isClause c \<and> item_id c = g_id t"
  from "1.prems" have wt: "well_tagged_list cs" and d: "distinct (allIds_list cs)" by auto
  note fs = findIndex_spec_direct [OF wt, of "g_id t"]
  show ?case
  proof (cases "spec_direct (g_id t) cs")
    case None
    with fs have idx: "findIndex ?P cs = - 1" by simp
    have "removeGroup_loop t cs =
        (case spec_descend (g_id t) cs of None \<Rightarrow> cs | Some r \<Rightarrow> r, None)"
      using "1.IH" [OF refl _ wt d None] idx by simp
    with idx None show ?thesis by (simp split: option.splits)
  next
    case (Some r)
    with fs have "findIndex ?P cs \<noteq> - 1" and "splice (findIndex ?P cs) 1 cs = r" by auto
    with Some show ?thesis by simp
  qed
next
  case (2 t)
  show ?case by simp
next
  case (3 t x xs)
  show ?case
  proof (cases x)
    case (ClauseItem c)
    with "3.prems" have ic: "isClause x" and wt: "well_tagged_list xs"
      and d: "distinct (allIds_list xs)" and sd: "spec_direct (g_id t) xs = None"
      by auto
    have "removeGroup_loop t xs =
        (case spec_descend (g_id t) xs of None \<Rightarrow> xs | Some r \<Rightarrow> r, None)"
      using "3.IH"(3) ic wt d sd by simp
    with ic ClauseItem show ?thesis by (simp split: option.splits)
  next
    case (GroupItem g)
    with "3.prems" have nc: "\<not> isClause x" and wg: "well_tagged g"
      and wt: "well_tagged_list xs" and dg: "distinct (allIds g)"
      and d: "distinct (allIds_list xs)"
      and disj: "set (allIds g) \<inter> set (allIds_list xs) = {}"
      and ne: "g_id g \<noteq> g_id t"
      and sd: "spec_direct (g_id t) xs = None"
      by (auto split: if_splits)
    have rg: "removeGroup t g =
        (case spec_removeGroup (g_id t) g of None \<Rightarrow> g | Some r \<Rightarrow> r, None)"
      using "3.IH"(1) [OF nc GroupItem wg dg] .
    have rl: "removeGroup_loop t xs =
        (case spec_descend (g_id t) xs of None \<Rightarrow> xs | Some r \<Rightarrow> r, None)"
      using "3.IH"(2) [OF nc GroupItem rg [symmetric] refl wt d sd] .
    show ?thesis
    proof (cases "spec_removeGroup (g_id t) g")
      case None
      with nc GroupItem rg rl show ?thesis by (simp split: option.splits)
    next
      case (Some r)
      then have "g_id t \<in> set (allIds_list (g_clauses g))"
        by (rule spec_removeGroup_in_ids(1))
      then have "g_id t \<in> set (allIds g)" by (cases g) auto
      with disj have "g_id t \<notin> set (allIds_list xs)" by auto
      then have "spec_descend (g_id t) xs = None"
        using spec_removeGroup_in_ids(2) [of "g_id t" xs] by (cases "spec_descend (g_id t) xs") auto
      with nc GroupItem rg rl Some show ?thesis by simp
    qed
  qed
qed

lemma spec_direct_deletions:
  "spec_direct tid xs = Some r \<Longrightarrow> r \<in> set (deletions_list tid xs)"
proof (induction tid xs arbitrary: r rule: spec_direct.induct)
  case (1 tid)
  then show ?case by simp
next
  case (2 tid c xs)
  then show ?case by auto
next
  case (3 tid g xs)
  then show ?case by (auto split: if_splits)
qed

lemma spec_removeGroup_deletions:
  "spec_removeGroup tid g = Some r \<Longrightarrow> r \<in> set (deletions tid g)"
  "spec_descend tid xs = Some r' \<Longrightarrow> r' \<in> set (deletions_list tid xs)"
proof (induction tid g and tid xs arbitrary: r and r' rule: spec_removeGroup_spec_descend.induct)
  case (1 tid i l cs)
  then show ?case by (auto split: option.splits dest: spec_direct_deletions)
next
  case (2 tid)
  then show ?case by simp
next
  case (3 tid c xs)
  then show ?case by auto
next
  case (4 tid g xs)
  then show ?case by (auto split: option.splits)
qed

lemma deletions_count:
  "length (deletions tid g) \<le> count_list (allIds_list (g_clauses g)) tid"
  "length (deletions_list tid xs) \<le> count_list (allIds_list xs) tid"
proof (induction tid g and tid xs rule: deletions_deletions_list.induct)
  case (1 tid i l cs)
  then show ?case by simp
next
  case (2 tid)
  show ?case by simp
next
  case (3 tid c xs)
  then show ?case by simp
next
  case (4 tid g xs)
  then show ?case by (cases g) (simp add: count_list_append)
qed

lemma deletions_at_most_one:
  assumes "distinct (allIds g)"
  shows "length (deletions tid g) \<le> 1"
proof -
  from assms have "distinct (allIds_list (g_clauses g))" by (cases g) simp
  then have "count_list (allIds_list (g_clauses g)) tid \<le> 1"
    by (rule distinct_count_le_1)
  with deletions_count(1) [of tid g] show ?thesis by linarith
qed

subsection \<open>Helper lemmas: serialization\<close>

lemma serializeParts_nth:
  "serializeParts xs = Inr ps \<Longrightarrow>
   length ps = length xs \<and> (\<forall>i<length xs. serializeItem (xs ! i) = Inr (ps ! i))"
proof (induction xs arbitrary: ps)
  case Nil
  then show ?case by simp
next
  case (Cons x xs)
  from Cons.prems obtain p ps' where p: "serializeItem x = Inr p"
    and ps': "serializeParts xs = Inr ps'" and eq: "ps = p # ps'"
    by (auto split: sum.splits)
  from Cons.IH [OF ps'] have len: "length ps' = length xs"
    and nth: "\<forall>i<length xs. serializeItem (xs ! i) = Inr (ps' ! i)" by auto
  show ?case
  proof (intro conjI allI impI)
    show "length ps = length (x # xs)" using len eq by simp
  next
    fix i assume "i < length (x # xs)"
    then show "serializeItem ((x # xs) ! i) = Inr (ps ! i)"
      using p nth eq by (cases i) auto
  qed
qed

lemma serialize_total:
  "well_tagged g \<Longrightarrow> \<exists>doc. serializeGroup g = Inr doc"
  "well_tagged_list xs \<Longrightarrow> \<exists>ps. serializeParts xs = Inr ps"
proof (induction g and xs rule: well_tagged_well_tagged_list.induct)
  case (1 i l cs)
  then show ?case by auto
next
  case 2
  show ?case by simp
next
  case (3 c xs)
  then show ?case by auto
next
  case (4 g xs)
  then show ?case by auto
qed

lemma logic_literal_case: "logic_literal l = (case l of AND \<Rightarrow> ''AND'' | OR \<Rightarrow> ''OR'')"
  by (cases l) simp_all

lemma serializeItem_literal:
  "serializeItem x = Inr p \<Longrightarrow>
   (case x of
      ClauseItem c \<Rightarrow>
        isClause (ClauseItem c) \<and>
        p = JObject [(''type'', JString ''clause''),
                     (''field'', (case c_field c of None \<Rightarrow> JUndefined | Some k \<Rightarrow> JString k)),
                     (''operator'',
                        (case c_operator c of None \<Rightarrow> JUndefined | Some k \<Rightarrow> JString k)),
                     (''value'', c_value c)]
    | GroupItem g \<Rightarrow>
        if isClause (GroupItem g)
        then p = JObject [(''type'', JString ''clause''), (''field'', JUndefined),
                          (''operator'', JUndefined), (''value'', JUndefined)]
        else \<exists>d. serializeGroup g = Inr d \<and>
               p = JObject [(''type'', JString ''group''),
                            (''logic'', JString (case g_logic g of AND \<Rightarrow> ''AND'' | OR \<Rightarrow> ''OR'')),
                            (''group'', d)])"
  by (cases x)
     (auto split: if_splits sum.splits simp: clausePart_def groupPart_def logic_literal_case)

lemma h_serialize_heap_unchanged:
  "h_serializeGroup n r h = Some (res, h') \<Longrightarrow> h' = h"
  "h_serializeParts n rs h = Some (res', h') \<Longrightarrow> h' = h"
  "h_serializeItem n r h = Some (res, h') \<Longrightarrow> h' = h"
proof (induction n r h and n rs h and n r h arbitrary: res h' and res' h' and res h'
    rule: h_serializeGroup_h_serializeParts_h_serializeItem.induct)
  case (1 grp h)
  then show ?case by simp
next
  case (2 n grp h)
  then show ?case
    by (auto split: option.splits obj.splits sum.splits prod.splits)
next
  case (3 n h)
  then show ?case by simp
next
  case (4 n r rs h)
  from "4.prems" obtain x h1 where i: "h_serializeItem n r h = Some (x, h1)"
    by (auto split: option.splits)
  from "4.IH"(1) [OF i] have h1: "h1 = h" .
  show ?case
  proof (cases x)
    case (Inl e)
    with "4.prems" i h1 show ?thesis by simp
  next
    case (Inr p)
    with "4.prems" i obtain y h2 where ps: "h_serializeParts n rs h1 = Some (y, h2)"
      and "h' = h2"
      by (auto split: option.splits sum.splits)
    with "4.IH"(2) [OF i refl Inr ps] h1 show ?thesis by simp
  qed
next
  case (5 n item h)
  then show ?case
    by (auto split: option.splits obj.splits sum.splits prod.splits if_splits)
qed

lemma h_serialize_repr:
  "repr h r g \<Longrightarrow> height g \<le> n \<Longrightarrow> h_serializeGroup n r h = Some (serializeGroup g, h)"
  "repr_list h rs xs \<Longrightarrow> height_list xs \<le> n \<Longrightarrow>
     h_serializeParts n rs h = Some (serializeParts xs, h)"
proof (induction h r g and h rs xs arbitrary: n and n rule: repr_repr_list.induct)
  case (1 h r i l cs)
  from "1.prems"(2) obtain m where n: "n = Suc m" and m: "height_list cs \<le> m"
    by (cases n) auto
  from "1.prems"(1) obtain rs where hr: "h r = Some (GroupObj i l rs)"
    and rl: "repr_list h rs cs"
    by (auto split: option.splits obj.splits)
  from "1.IH" [OF hr refl rl m] have "h_serializeParts m rs h = Some (serializeParts cs, h)" .
  with n hr show ?case by (simp split: sum.splits)
next
  case (2 h rs)
  then show ?case by simp
next
  case (3 h rs c xs)
  from "3.prems"(1) obtain r rs' where rs: "rs = r # rs'" and hr: "h r = Some (ClauseObj c)"
    and rl: "repr_list h rs' xs"
    by (auto split: list.splits)
  from "3.prems"(2) have "height_list xs \<le> n" by simp
  from "3.IH" [OF rs rl this] have "h_serializeParts n rs' h = Some (serializeParts xs, h)" .
  with rs hr show ?case by (simp add: isClause_def split: sum.splits)
next
  case (4 h rs g xs)
  from "4.prems"(1) obtain r rs' where rs: "rs = r # rs'" and rg: "repr h r g"
    and rl: "repr_list h rs' xs"
    by (auto split: list.splits)
  from "4.prems"(2) have hg: "height g \<le> n" and hl: "height_list xs \<le> n" by simp_all
  from "4.IH"(1) [OF rs rg hg] have sg: "h_serializeGroup n r h = Some (serializeGroup g, h)" .
  from "4.IH"(2) [OF rs rl hl] have sl: "h_serializeParts n rs' h = Some (serializeParts xs, h)" .
  obtain i l cs where g: "g = Group i l cs" by (cases g)
  from rg g obtain rs'' where hr: "h r = Some (GroupObj i l rs'')"
    by (auto split: option.splits obj.splits)
  show ?case using rs sg sl hr g
    by (simp add: isClause_def split: sum.splits)
qed

subsection \<open>The scenario of the specification\<close>

text \<open>
  C1 (as amended). Starting from a root group with logic AND and no children,
  \<open>addClause\<close>, then \<open>addGroup\<close>, then \<open>serializeGroup\<close> returns the document
  \<^verbatim>\<open>{ logic: "AND", parts: [ {type:"clause", field:undefined, operator:undefined, value:""},
  {type:"group", logic:"AND", group:{logic:"AND", parts:[]}} ] }\<close>: the discriminant of a
  part is the property \<^verbatim>\<open>type\<close>, whatever the random ids are.
\<close>

theorem scenario_serialize:
  "serializeGroup (addGroup rnd2 (addClause rnd1 (Group i AND []))) =
     Inr (JObject [(''logic'', JString ''AND''),
                   (''parts'', JArray [
                      JObject [(''type'', JString ''clause''), (''field'', JUndefined),
                               (''operator'', JUndefined), (''value'', JString '''')],
                      JObject [(''type'', JString ''group''), (''logic'', JString ''AND''),
                               (''group'', JObject [(''logic'', JString ''AND''),
                                                    (''parts'', JArray [])])]])])"
  by (simp add: addGroup_def addClause_def queryDocument_def clausePart_def groupPart_def
      newClause_def newGroup_def isClause_def uid_def)

text \<open>
  C1 as stated fails: the document of the scenario is not the one whose parts carry a
  \<^verbatim>\<open>kind\<close> property.
\<close>

theorem scenario_serialize_kind_counterexample:
  "serializeGroup (addGroup ''0.b2'' (addClause ''0.a1'' (newGroup ''0.r0''))) \<noteq>
     Inr (JObject [(''logic'', JString ''AND''),
                   (''parts'', JArray [
                      JObject [(''kind'', JString ''clause''), (''field'', JUndefined),
                               (''operator'', JUndefined), (''value'', JString '''')],
                      JObject [(''kind'', JString ''group''), (''logic'', JString ''AND''),
                               (''group'', JObject [(''logic'', JString ''AND''),
                                                    (''parts'', JArray [])])]])])"
  by (simp add: addGroup_def addClause_def queryDocument_def clausePart_def groupPart_def
      newGroup_def newClause_def isClause_def uid_def substr_def)

subsection \<open>Parts follow children\<close>

text \<open>
  C2. For every group \<open>G\<close>, the document that \<open>serializeGroup\<close> returns is the object
  \<^verbatim>\<open>{ logic, parts }\<close> with the logic of \<open>G\<close> and an array \<^verbatim>\<open>parts\<close> as long as the
  children list of \<open>G\<close>, whose i-th element is made from the i-th child: the object
  \<^verbatim>\<open>{ type: 'clause', field, operator, value }\<close> with the child's field, operator and
  value, or the object \<^verbatim>\<open>{ type: 'group', logic, group }\<close> with the child's logic and the
  child's own document (to which the same applies, level by level). The documents are
  written out property by property. A document is returned for every well-tagged tree;
  on a tree that is not, the call may throw, and a Group object whose id starts with
  \<^verbatim>\<open>c_\<close> gives a clause part of three \<^verbatim>\<open>undefined\<close>.
\<close>

theorem serializeGroup_parts_follow_children:
  "(well_tagged G \<longrightarrow> (\<exists>doc. serializeGroup G = Inr doc)) \<and>
   (\<forall>doc. serializeGroup G = Inr doc \<longrightarrow>
      (\<exists>parts.
         doc = JObject [(''logic'', JString (case g_logic G of AND \<Rightarrow> ''AND'' | OR \<Rightarrow> ''OR'')),
                        (''parts'', JArray parts)] \<and>
         length parts = length (g_clauses G) \<and>
         (\<forall>i<length parts.
            (case g_clauses G ! i of
               ClauseItem c \<Rightarrow>
                 isClause (ClauseItem c) \<and>
                 parts ! i =
                   JObject [(''type'', JString ''clause''),
                            (''field'',
                               (case c_field c of None \<Rightarrow> JUndefined | Some k \<Rightarrow> JString k)),
                            (''operator'',
                               (case c_operator c of None \<Rightarrow> JUndefined | Some k \<Rightarrow> JString k)),
                            (''value'', c_value c)]
             | GroupItem g \<Rightarrow>
                 if isClause (GroupItem g)
                 then parts ! i =
                        JObject [(''type'', JString ''clause''), (''field'', JUndefined),
                                 (''operator'', JUndefined), (''value'', JUndefined)]
                 else \<exists>d. serializeGroup g = Inr d \<and>
                        parts ! i =
                          JObject [(''type'', JString ''group''),
                                   (''logic'',
                                      JString (case g_logic g of AND \<Rightarrow> ''AND'' | OR \<Rightarrow> ''OR'')),
                                   (''group'', d)]))))"
proof (intro conjI impI allI)
  assume "well_tagged G"
  then show "\<exists>doc. serializeGroup G = Inr doc" by (rule serialize_total(1))
next
  fix doc
  assume s: "serializeGroup G = Inr doc"
  obtain i l cs where G: "G = Group i l cs" by (cases G)
  from s G obtain parts where ps: "serializeParts cs = Inr parts"
    and doc: "doc = queryDocument l parts"
    by (auto split: sum.splits)
  from serializeParts_nth [OF ps] have len: "length parts = length cs"
    and nth: "\<forall>i<length cs. serializeItem (cs ! i) = Inr (parts ! i)" by auto
  let ?part = "\<lambda>x p. (case x of
      ClauseItem c \<Rightarrow>
        isClause (ClauseItem c) \<and>
        p = JObject [(''type'', JString ''clause''),
                     (''field'', (case c_field c of None \<Rightarrow> JUndefined | Some k \<Rightarrow> JString k)),
                     (''operator'',
                        (case c_operator c of None \<Rightarrow> JUndefined | Some k \<Rightarrow> JString k)),
                     (''value'', c_value c)]
    | GroupItem g \<Rightarrow>
        if isClause (GroupItem g)
        then p = JObject [(''type'', JString ''clause''), (''field'', JUndefined),
                          (''operator'', JUndefined), (''value'', JUndefined)]
        else \<exists>d. serializeGroup g = Inr d \<and>
               p = JObject [(''type'', JString ''group''),
                            (''logic'', JString (case g_logic g of AND \<Rightarrow> ''AND'' | OR \<Rightarrow> ''OR'')),
                            (''group'', d)])"
  have a: "doc = JObject [(''logic'', JString (case g_logic G of AND \<Rightarrow> ''AND'' | OR \<Rightarrow> ''OR'')),
                          (''parts'', JArray parts)]"
    using doc G by (simp add: queryDocument_def logic_literal_case)
  have b: "length parts = length (g_clauses G)" using len G by simp
  have c: "\<forall>k<length parts. ?part (g_clauses G ! k) (parts ! k)"
  proof (intro allI impI)
    fix k assume "k < length parts"
    with len nth have "serializeItem (cs ! k) = Inr (parts ! k)" by simp
    from serializeItem_literal [OF this] show "?part (g_clauses G ! k) (parts ! k)"
      unfolding G Group.sel .
  qed
  from a b c
  show "\<exists>parts.
         doc = JObject [(''logic'', JString (case g_logic G of AND \<Rightarrow> ''AND'' | OR \<Rightarrow> ''OR'')),
                        (''parts'', JArray parts)] \<and>
         length parts = length (g_clauses G) \<and>
         (\<forall>i<length parts. ?part (g_clauses G ! i) (parts ! i))"
    by blast
qed

text \<open>The sample tree is well tagged and has three children: its document has three
  parts, the first made from the clause \<^verbatim>\<open>c_1\<close> and the third from the empty group
  \<^verbatim>\<open>g_c\<close>.\<close>

theorem serializeGroup_parts_follow_children_witness:
  "well_tagged sampleTree \<and>
   (\<exists>parts.
      serializeGroup sampleTree =
        Inr (JObject [(''logic'', JString ''AND''), (''parts'', JArray parts)]) \<and>
      length parts = 3 \<and>
      parts ! 0 = JObject [(''type'', JString ''clause''), (''field'', JString ''Title''),
                           (''operator'', JString ''contains''), (''value'', JString ''bug'')] \<and>
      parts ! 2 = JObject [(''type'', JString ''group''), (''logic'', JString ''AND''),
                           (''group'', JObject [(''logic'', JString ''AND''),
                                                (''parts'', JArray [])])])"
proof -
  have wt: "well_tagged sampleTree"
    by (simp add: sampleTree_def isClause_def)
  note inst = serializeGroup_parts_follow_children [of sampleTree]
  from inst wt obtain doc where doc: "serializeGroup sampleTree = Inr doc" by blast
  from inst doc obtain parts where
    d: "doc = JObject [(''logic'',
           JString (case g_logic sampleTree of AND \<Rightarrow> ''AND'' | OR \<Rightarrow> ''OR'')),
         (''parts'', JArray parts)]"
    and len: "length parts = length (g_clauses sampleTree)"
    and nth: "\<forall>i<length parts.
       (case g_clauses sampleTree ! i of
          ClauseItem c \<Rightarrow>
            isClause (ClauseItem c) \<and>
            parts ! i =
              JObject [(''type'', JString ''clause''),
                       (''field'', (case c_field c of None \<Rightarrow> JUndefined | Some k \<Rightarrow> JString k)),
                       (''operator'',
                          (case c_operator c of None \<Rightarrow> JUndefined | Some k \<Rightarrow> JString k)),
                       (''value'', c_value c)]
        | GroupItem g \<Rightarrow>
            if isClause (GroupItem g)
            then parts ! i =
                   JObject [(''type'', JString ''clause''), (''field'', JUndefined),
                            (''operator'', JUndefined), (''value'', JUndefined)]
            else \<exists>d. serializeGroup g = Inr d \<and>
                   parts ! i =
                     JObject [(''type'', JString ''group''),
                              (''logic'',
                                 JString (case g_logic g of AND \<Rightarrow> ''AND'' | OR \<Rightarrow> ''OR'')),
                              (''group'', d)])"
    by blast
  from len have l3: "length parts = 3" by (simp add: sampleTree_def)
  from d have d': "doc = JObject [(''logic'', JString ''AND''), (''parts'', JArray parts)]"
    by (simp add: sampleTree_def)
  from l3 have i0: "0 < length parts" and i2: "2 < length parts" by simp_all
  from nth [rule_format, OF i0] have p0: "parts ! 0 =
      JObject [(''type'', JString ''clause''), (''field'', JString ''Title''),
               (''operator'', JString ''contains''), (''value'', JString ''bug'')]"
    by (simp add: sampleTree_def)
  from nth [rule_format, OF i2] have p2: "parts ! 2 =
      JObject [(''type'', JString ''group''), (''logic'', JString ''AND''),
               (''group'', JObject [(''logic'', JString ''AND''), (''parts'', JArray [])])]"
    by (simp add: sampleTree_def isClause_def queryDocument_def)
  from wt doc d' l3 p0 p2 show ?thesis by blast
qed

subsection \<open>Serialization does not write\<close>

text \<open>
  C3. \<open>serializeGroup\<close> is pure. In whatever store and at whatever reference it returns,
  the store it leaves is the store it was given, and a second call right after the first
  returns the same result. Where the store holds a tree, the call returns (a recursion
  depth equal to the height of the tree is enough) and its result is the one computed
  from the tree as a value.
\<close>

theorem serialize_pure:
  "(\<forall>n res h'. h_serializeGroup n r h = Some (res, h') \<longrightarrow>
      h' = h \<and> h_serializeGroup n r h' = Some (res, h')) \<and>
   (repr h r g \<longrightarrow> h_serializeGroup (height g) r h = Some (serializeGroup g, h))"
proof (intro conjI allI impI)
  fix n res h'
  assume s: "h_serializeGroup n r h = Some (res, h')"
  then show "h' = h" by (rule h_serialize_heap_unchanged(1))
  with s show "h_serializeGroup n r h' = Some (res, h')" by simp
next
  assume "repr h r g"
  then show "h_serializeGroup (height g) r h = Some (serializeGroup g, h)"
    by (rule h_serialize_repr(1)) simp
qed

theorem serialize_pure_witness:
  "repr sampleHeap 0 sampleTree \<and>
   h_serializeGroup (height sampleTree) 0 sampleHeap =
     Some (serializeGroup sampleTree, sampleHeap)"
proof -
  have r: "repr sampleHeap 0 sampleTree"
    by (simp add: sampleHeap_def sampleTree_def)
  from serialize_pure [of 0 sampleHeap sampleTree] r show ?thesis by simp
qed

subsection \<open>Removing a group\<close>

text \<open>
  C4. For every well-formed tree (all ids distinct, well tagged) and every target group,
  \<open>removeGroup\<close> ends without an exception and leaves the tree that the specification's
  operation describes: the first child Group with the target's id, in the depth-first
  search that looks at the direct children of a group before it descends, is removed,
  or nothing is when there is no match. The tree left is the tree given or differs from
  it by one deletion of a child Group with that id, every other node staying at its
  place; and at most one such deletion exists.
\<close>

theorem removeGroup_removes_first_match:
  assumes "well_formed searchRoot"
  shows "removeGroup targetGroup searchRoot =
           (case spec_removeGroup (g_id targetGroup) searchRoot of
              None \<Rightarrow> searchRoot | Some r \<Rightarrow> r, None) \<and>
         (fst (removeGroup targetGroup searchRoot) = searchRoot \<or>
          fst (removeGroup targetGroup searchRoot)
            \<in> set (deletions (g_id targetGroup) searchRoot)) \<and>
         length (deletions (g_id targetGroup) searchRoot) \<le> 1"
proof -
  from assms have wt: "well_tagged searchRoot" and d: "distinct (allIds searchRoot)"
    by (simp_all add: well_formed_def)
  have r: "removeGroup targetGroup searchRoot =
           (case spec_removeGroup (g_id targetGroup) searchRoot of
              None \<Rightarrow> searchRoot | Some r \<Rightarrow> r, None)"
    by (rule removeGroup_refines(1) [OF wt d])
  have m: "fst (removeGroup targetGroup searchRoot) = searchRoot \<or>
          fst (removeGroup targetGroup searchRoot)
            \<in> set (deletions (g_id targetGroup) searchRoot)"
  proof (cases "spec_removeGroup (g_id targetGroup) searchRoot")
    case None
    with r show ?thesis by simp
  next
    case (Some r')
    from spec_removeGroup_deletions(1) [OF Some] r Some show ?thesis by simp
  qed
  from r m deletions_at_most_one [OF d] show ?thesis by blast
qed

text \<open>Removing \<^verbatim>\<open>g_b\<close>, a grandchild of the root, from the sample tree.\<close>

theorem removeGroup_removes_first_match_witness:
  "well_formed sampleTree \<and>
   removeGroup (Group ''g_b'' AND []) sampleTree =
     (Group ''g_root'' AND
       [ClauseItem \<lparr>c_id = ''c_1'', c_field = Some ''Title'', c_operator = Some ''contains'',
                    c_value = JString ''bug''\<rparr>,
        GroupItem (Group ''g_a'' OR
          [ClauseItem \<lparr>c_id = ''c_2'', c_field = None, c_operator = None,
                        c_value = JString ''''\<rparr>]),
        GroupItem (Group ''g_c'' AND [])], None)"
proof -
  have wf: "well_formed sampleTree"
    by (simp add: well_formed_def sampleTree_def isClause_def)
  from removeGroup_removes_first_match [OF wf, of "Group ''g_b'' AND []"]
  have "removeGroup (Group ''g_b'' AND []) sampleTree =
           (case spec_removeGroup ''g_b'' sampleTree of
              None \<Rightarrow> sampleTree | Some r \<Rightarrow> r, None)"
    by simp
  then show ?thesis using wf by (simp add: sampleTree_def)
qed

subsection \<open>The root cannot be removed\<close>

text \<open>
  C5. For every well-formed tree, \<open>removeGroup\<close> with the root itself as target leaves
  the whole tree as it was, and ends without an exception: no child has the root's id.
  So does the call with one argument on a component whose root the tree is.
\<close>

theorem removeGroup_root_unchanged:
  assumes "well_formed root"
  shows "removeGroup root root = (root, None) \<and>
         removeGroup_default (this\<lparr>qb_rootGroup := root\<rparr>) root =
           (this\<lparr>qb_rootGroup := root\<rparr>, None)"
proof -
  from assms have wt: "well_tagged root" and d: "distinct (allIds root)"
    by (simp_all add: well_formed_def)
  from d have "g_id root \<notin> set (allIds_list (g_clauses root))" by (cases root) simp
  with wt have "removeGroup root root = (root, None)" by (rule removeGroup_no_match(1))
  then show ?thesis by (simp add: removeGroup_default_def)
qed

theorem removeGroup_root_unchanged_witness:
  "well_formed sampleTree \<and> removeGroup sampleTree sampleTree = (sampleTree, None)"
proof -
  have wf: "well_formed sampleTree"
    by (simp add: well_formed_def sampleTree_def isClause_def)
  from removeGroup_root_unchanged [OF wf] wf show ?thesis by blast
qed

subsection \<open>Changing the field of a clause\<close>

text \<open>
  C6. For every clause and every field key, after the field selector has written the new
  key and \<open>onFieldChange\<close> has run, the clause's field is the new key, its operator is
  \<^verbatim>\<open>undefined\<close> and its value is the empty string, whatever operator and value it had
  before; its id is unchanged, and the order of the two steps does not matter.
\<close>

theorem setClauseField_resets:
  "c_field (setClauseField clause newFieldKey) = newFieldKey \<and>
   c_operator (setClauseField clause newFieldKey) = None \<and>
   c_value (setClauseField clause newFieldKey) = JString '''' \<and>
   c_id (setClauseField clause newFieldKey) = c_id clause \<and>
   ngModel_field (onFieldChange clause) newFieldKey = setClauseField clause newFieldKey"
  by (simp add: setClauseField_def onFieldChange_def ngModel_field_def)

subsection \<open>Looking a clause's field up in the catalog\<close>

text \<open>
  C7 (as amended). For every clause and every catalog: if the clause has no field, or
  its field is the key of no entry, \<open>operatorsForClause\<close> returns the empty list and
  \<open>valueInputType\<close> returns \<^verbatim>\<open>'string'\<close>; if the keys of the catalog are distinct and the
  field is the key of an entry, they return that entry's operators, in order, and that
  entry's type.
\<close>

theorem catalog_lookup:
  "((c_field clause = None \<or> (\<forall>f\<in>set fs. Some (f_key f) \<noteq> c_field clause)) \<longrightarrow>
      operatorsForClause fs clause = [] \<and>
      FieldType_literal (valueInputType fs clause) = ''string'') \<and>
   (distinct (map f_key fs) \<longrightarrow>
      (\<forall>f\<in>set fs. c_field clause = Some (f_key f) \<longrightarrow>
         operatorsForClause fs clause = f_operators f \<and>
         valueInputType fs clause = f_type f))"
proof (intro conjI impI ballI)
  assume a: "c_field clause = None \<or> (\<forall>f\<in>set fs. Some (f_key f) \<noteq> c_field clause)"
  then have "\<forall>f\<in>set fs. Some (f_key f) \<noteq> c_field clause" by auto
  then have n: "lookupField fs clause = None"
    unfolding lookupField_def by (rule find_None_keys)
  show "operatorsForClause fs clause = []"
    by (simp add: operatorsForClause_def n)
  show "FieldType_literal (valueInputType fs clause) = ''string''"
    by (simp add: valueInputType_def n)
next
  fix f
  assume d: "distinct (map f_key fs)" and m: "f \<in> set fs"
    and k: "c_field clause = Some (f_key f)"
  have s: "lookupField fs clause = Some f"
    unfolding lookupField_def k by (rule find_distinct_keys [OF d m])
  show "operatorsForClause fs clause = f_operators f"
    by (simp add: operatorsForClause_def s)
  show "valueInputType fs clause = f_type f"
    by (simp add: valueInputType_def s)
qed

text \<open>In the default catalog: a new clause (no field), a clause whose field is no key
  of the catalog, and a clause whose field is \<^verbatim>\<open>Priority\<close>.\<close>

theorem catalog_lookup_witness:
  "operatorsForClause DEFAULT_FIELDS (newClause ''0.a1'') = [] \<and>
   FieldType_literal (valueInputType DEFAULT_FIELDS (newClause ''0.a1'')) = ''string'' \<and>
   operatorsForClause DEFAULT_FIELDS ((newClause ''0.a1'')\<lparr>c_field := Some ''Severity''\<rparr>) = [] \<and>
   FieldType_literal
     (valueInputType DEFAULT_FIELDS ((newClause ''0.a1'')\<lparr>c_field := Some ''Severity''\<rparr>))
     = ''string'' \<and>
   operatorsForClause DEFAULT_FIELDS ((newClause ''0.a1'')\<lparr>c_field := Some ''Priority''\<rparr>)
     = [''='', ''!='', ''<'', ''>''] \<and>
   FieldType_literal
     (valueInputType DEFAULT_FIELDS ((newClause ''0.a1'')\<lparr>c_field := Some ''Priority''\<rparr>))
     = ''number''"
proof -
  let ?p = "\<lparr>f_key = ''Priority'', f_label = ''Priority'', f_type = FT_number,
     f_operators = [''='', ''!='', ''<'', ''>'']\<rparr>"
  let ?new = "newClause ''0.a1''"
  let ?sev = "(newClause ''0.a1'')\<lparr>c_field := Some ''Severity''\<rparr>"
  let ?pri = "(newClause ''0.a1'')\<lparr>c_field := Some ''Priority''\<rparr>"
  have d: "distinct (map f_key DEFAULT_FIELDS)"
    by (simp add: DEFAULT_FIELDS_def)
  have m: "?p \<in> set DEFAULT_FIELDS"
    by (simp add: DEFAULT_FIELDS_def)
  have n1: "c_field ?new = None"
    by (simp add: newClause_def)
  have n2: "\<forall>f\<in>set DEFAULT_FIELDS. Some (f_key f) \<noteq> c_field ?sev"
    by (simp add: DEFAULT_FIELDS_def)
  have k: "c_field ?pri = Some (f_key ?p)"
    by simp
  from catalog_lookup [of ?new DEFAULT_FIELDS] n1
  have a: "operatorsForClause DEFAULT_FIELDS ?new = [] \<and>
      FieldType_literal (valueInputType DEFAULT_FIELDS ?new) = ''string''"
    by blast
  from catalog_lookup [of ?sev DEFAULT_FIELDS] n2
  have b: "operatorsForClause DEFAULT_FIELDS ?sev = [] \<and>
      FieldType_literal (valueInputType DEFAULT_FIELDS ?sev) = ''string''"
    by blast
  from catalog_lookup [of ?pri DEFAULT_FIELDS] d m k
  have c: "operatorsForClause DEFAULT_FIELDS ?pri = f_operators ?p \<and>
      valueInputType DEFAULT_FIELDS ?pri = f_type ?p"
    by blast
  from a b c show ?thesis by simp
qed

text \<open>C7 as stated fails: for a clause with no field the value input type is not
  \<^verbatim>\<open>"text"\<close>.\<close>

theorem valueInputType_text_counterexample:
  "c_field (newClause ''0.a1'') = None \<and>
   FieldType_literal (valueInputType DEFAULT_FIELDS (newClause ''0.a1'')) \<noteq> ''text''"
  by (simp add: newClause_def valueInputType_def lookupField_def DEFAULT_FIELDS_def)

subsection \<open>Classification of factory-made nodes\<close>

text \<open>
  C8. \<open>isClause\<close> is true of every node made by \<open>newClause\<close> and false of every node
  made by \<open>newGroup\<close>, whatever the random part of the id: the prefixes \<^verbatim>\<open>c_\<close> and
  \<^verbatim>\<open>g_\<close> decide.
\<close>

theorem isClause_agrees_with_factory:
  "isClause (ClauseItem (newClause rnd)) \<and> \<not> isClause (GroupItem (newGroup rnd'))"
  by (simp add: isClause_def newClause_def newGroup_def uid_def)

subsection \<open>Adding and removing a clause\<close>

text \<open>
  C9. For every group, \<open>addClause\<close> followed by \<open>removeClause\<close> at the index of the
  appended clause (the previous length) gives back the group: the children list has its
  previous length and every child is unchanged, at its position.
\<close>

theorem addClause_removeClause_inverse:
  "removeClause (addClause rnd g) (int (length (g_clauses g))) = g"
  by (cases g) (simp add: removeClause_def addClause_def splice_last)

subsection \<open>The root after construction and after clear\<close>

text \<open>
  C10. After construction, and after every call of \<open>clear\<close>, the root is a group with
  logic AND whose only child is a new clause with no field, no operator and the empty
  string as value.
\<close>

theorem root_after_constructor_and_clear:
  "qb_rootGroup (constructor rnd1 rnd2) =
     Group (uid ''g_'' rnd1) AND
       [ClauseItem \<lparr>c_id = uid ''c_'' rnd2, c_field = None, c_operator = None,
                    c_value = JString ''''\<rparr>] \<and>
   qb_rootGroup (clear rnd1 rnd2 this) =
     Group (uid ''g_'' rnd1) AND
       [ClauseItem \<lparr>c_id = uid ''c_'' rnd2, c_field = None, c_operator = None,
                    c_value = JString ''''\<rparr>]"
  by (simp add: constructor_def clear_def newGroup_def addClause_def newClause_def)

end
